theory Spec2Isabelle
  imports Main
begin

section \<open>Strings of the host language\<close>

text \<open>
  The booking-state extractor of \<^verbatim>\<open>src/app/api/chat/route.ts\<close> works on JavaScript
  strings. A message text is modelled as a \<^typ>\<open>string\<close>: a list of characters whose
  codes range over 0..255, read as the code units U+0000..U+00FF. The character
  predicates below are the ECMAScript ones restricted to that range.
\<close>

definition char_code :: "char \<Rightarrow> nat" where
  "char_code c = of_char c"

text \<open>\<^verbatim>\<open>\s\<close> and the characters removed by \<^verbatim>\<open>trim()\<close>: TAB, LF, VT, FF, CR, SP, NBSP.\<close>

definition is_space :: "char \<Rightarrow> bool" where
  "is_space c = (char_code c \<in> {9, 10, 11, 12, 13, 32, 160})"

text \<open>\<^verbatim>\<open>\d\<close>\<close>

definition is_digit :: "char \<Rightarrow> bool" where
  "is_digit c = (48 \<le> char_code c \<and> char_code c \<le> 57)"

text \<open>\<^verbatim>\<open>.\<close> matches everything but the line terminators LF and CR.\<close>

definition is_line_terminator :: "char \<Rightarrow> bool" where
  "is_line_terminator c = (char_code c = 10 \<or> char_code c = 13)"

text \<open>
  \<^verbatim>\<open>toLowerCase\<close> and \<^verbatim>\<open>toUpperCase\<close> on one code unit: A-Z and a-z, and the
  accented letters U+00C0..U+00DE and U+00E0..U+00FE without the signs U+00D7 and U+00F7.
  The upper-case forms of U+00B5, U+00DF and U+00FF lie outside the range; those three
  characters are left as they are, which is also what the case-insensitive comparison of
  a regular expression does with them against any pattern character used here.
\<close>

definition lower_char :: "char \<Rightarrow> char" where
  "lower_char c =
     (if (65 \<le> char_code c \<and> char_code c \<le> 90) \<or> (192 \<le> char_code c \<and> char_code c \<le> 222 \<and> char_code c \<noteq> 215)
      then char_of (char_code c + 32) else c)"

definition upper_char :: "char \<Rightarrow> char" where
  "upper_char c =
     (if (97 \<le> char_code c \<and> char_code c \<le> 122) \<or> (224 \<le> char_code c \<and> char_code c \<le> 254 \<and> char_code c \<noteq> 247)
      then char_of (char_code c - 32) else c)"

definition toLowerCase :: "string \<Rightarrow> string" where
  "toLowerCase s = map lower_char s"

definition trim :: "string \<Rightarrow> string" where
  "trim s = rev (dropWhile is_space (rev (dropWhile is_space s)))"

text \<open>\<^verbatim>\<open>s.includes(k)\<close>: \<open>k\<close> occurs in \<open>s\<close> as a contiguous run.\<close>

fun starts_with :: "string \<Rightarrow> string \<Rightarrow> bool" where
  "starts_with s [] = True"
| "starts_with [] (k # ks) = False"
| "starts_with (c # cs) (k # ks) = (c = k \<and> starts_with cs ks)"

fun str_includes :: "string \<Rightarrow> string \<Rightarrow> bool" where
  "str_includes [] k = (k = [])"
| "str_includes (c # cs) k = (starts_with (c # cs) k \<or> str_includes cs k)"

text \<open>\<^verbatim>\<open>keywords.some(keyword => s.includes(keyword))\<close>\<close>

definition includes_some :: "string \<Rightarrow> string list \<Rightarrow> bool" where
  "includes_some s ks = list_ex (str_includes s) ks"

section \<open>Regular expressions\<close>

text \<open>
  The patterns of the extractor use literals, character classes, \<^verbatim>\<open>.\<close>, sequence,
  alternation, greedy quantifiers, the anchors \<^verbatim>\<open>^\<close> and \<^verbatim>\<open>$\<close>, and at most one
  capturing group, which is never inside a quantifier. \<open>Rep m n r\<close> is the greedy
  quantifier \<^verbatim>\<open>r{m,n}\<close>, with \<open>None\<close> for no upper bound: \<^verbatim>\<open>*\<close> is \<open>Rep 0 None\<close>,
  \<^verbatim>\<open>+\<close> is \<open>Rep 1 None\<close>, \<^verbatim>\<open>?\<close> is \<open>Rep 0 (Some 1)\<close>.
\<close>

datatype citem = Chr char | Rng char char | Space | Digit

datatype regex =
    Eps
  | Cls "citem list"
  | Dot
  | Bol
  | Eol
  | Seq regex regex
  | Alt regex regex
  | Rep nat "nat option" regex
  | Group regex

fun in_item :: "citem \<Rightarrow> char \<Rightarrow> bool" where
  "in_item (Chr a) c = (c = a)"
| "in_item (Rng lo hi) c = (char_code lo \<le> char_code c \<and> char_code c \<le> char_code hi)"
| "in_item Space c = is_space c"
| "in_item Digit c = is_digit c"

text \<open>
  With the flag \<^verbatim>\<open>i\<close> a character is in a class when the class has a member with the
  same canonical (upper-case) form, that is, when the character or one of its two case
  variants is a member.
\<close>

definition in_class :: "bool \<Rightarrow> citem list \<Rightarrow> char \<Rightarrow> bool" where
  "in_class ci items c =
     list_ex (\<lambda>it. in_item it c \<or> (ci \<and> (in_item it (upper_char c) \<or> in_item it (lower_char c)))) items"

text \<open>
  A matcher state is the rest of the input and the text captured by the group so far.
  \<open>rmatch ci inp r st\<close> lists, in the priority order of the backtracking matcher, every
  state in which a match of \<open>r\<close> starting in \<open>st\<close> can end; the head of the list is the
  match the engine reports. An iteration of a quantifier that consumes nothing is
  rejected once the lower bound is met, as in the language definition.
\<close>

type_synonym mstate = "string \<times> string option"

fun rsize :: "regex \<Rightarrow> nat" where
  "rsize (Seq a b) = Suc (rsize a + rsize b)"
| "rsize (Alt a b) = Suc (rsize a + rsize b)"
| "rsize (Rep m n r) = Suc (rsize r)"
| "rsize (Group r) = Suc (rsize r)"
| "rsize r = 0"

fun rmin :: "regex \<Rightarrow> nat" where
  "rmin (Rep m n r) = m"
| "rmin r = 0"

function rmatch :: "bool \<Rightarrow> string \<Rightarrow> regex \<Rightarrow> mstate \<Rightarrow> mstate list" where
  "rmatch ci inp Eps st = [st]"
| "rmatch ci inp (Cls items) st =
     (case fst st of
        [] \<Rightarrow> []
      | c # cs \<Rightarrow> if in_class ci items c then [(cs, snd st)] else [])"
| "rmatch ci inp Dot st =
     (case fst st of
        [] \<Rightarrow> []
      | c # cs \<Rightarrow> if is_line_terminator c then [] else [(cs, snd st)])"
| "rmatch ci inp Bol st = (if length (fst st) = length inp then [st] else [])"
| "rmatch ci inp Eol st = (if fst st = [] then [st] else [])"
| "rmatch ci inp (Seq a b) st = concat (map (rmatch ci inp b) (rmatch ci inp a st))"
| "rmatch ci inp (Alt a b) st = rmatch ci inp a st @ rmatch ci inp b st"
| "rmatch ci inp (Group r) st =
     map (\<lambda>st'. (fst st', Some (take (length (fst st) - length (fst st')) (fst st))))
       (rmatch ci inp r st)"
| "rmatch ci inp (Rep m n r) st =
     (if n = Some 0 then [st]
      else concat (map (\<lambda>st'. if m = 0 \<and> \<not> length (fst st') < length (fst st) then []
                              else rmatch ci inp (Rep (m - 1) (map_option (\<lambda>k. k - 1) n) r) st')
                    (rmatch ci inp r st))
           @ (if m = 0 then [st] else []))"
  by pat_completeness auto
termination
  by (relation "measures [\<lambda>(ci, inp, r, st). rsize r,
                          \<lambda>(ci, inp, r, st). rmin r,
                          \<lambda>(ci, inp, r, st). length (fst st)]") auto

declare rmatch.simps(9) [simp del]

text \<open>
  \<^verbatim>\<open>s.match(r)\<close> for a pattern without the flag \<^verbatim>\<open>g\<close>: the leftmost start at which
  \<open>r\<close> matches, giving the matched text (element 0 of the result) and the text of the
  group (element 1, \<open>None\<close> for \<^verbatim>\<open>undefined\<close>).
\<close>

definition match_at :: "bool \<Rightarrow> regex \<Rightarrow> string \<Rightarrow> string \<Rightarrow> (string \<times> string option) option" where
  "match_at ci r inp rest =
     (case rmatch ci inp r (rest, None) of
        [] \<Rightarrow> None
      | st' # _ \<Rightarrow> Some (take (length rest - length (fst st')) rest, snd st'))"

fun search :: "bool \<Rightarrow> regex \<Rightarrow> string \<Rightarrow> string \<Rightarrow> (string \<times> string option) option" where
  "search ci r inp [] = match_at ci r inp []"
| "search ci r inp (c # cs) =
     (case match_at ci r inp (c # cs) of
        Some m \<Rightarrow> Some m
      | None \<Rightarrow> search ci r inp cs)"

definition js_match :: "bool \<Rightarrow> regex \<Rightarrow> string \<Rightarrow> (string \<times> string option) option" where
  "js_match ci r s = search ci r s s"

text \<open>\<^verbatim>\<open>r.test(s)\<close>\<close>

definition js_test :: "bool \<Rightarrow> regex \<Rightarrow> string \<Rightarrow> bool" where
  "js_test ci r s = (js_match ci r s \<noteq> None)"

text \<open>Abbreviations for writing the patterns down as they stand in the source.\<close>

fun lit :: "string \<Rightarrow> regex" where
  "lit [] = Eps"
| "lit [c] = Cls [Chr c]"
| "lit (c # cs) = Seq (Cls [Chr c]) (lit cs)"

definition rstar :: "regex \<Rightarrow> regex" where "rstar r = Rep 0 None r"
definition rplus :: "regex \<Rightarrow> regex" where "rplus r = Rep 1 None r"
definition ropt :: "regex \<Rightarrow> regex" where "ropt r = Rep 0 (Some 1) r"
definition exactly :: "nat \<Rightarrow> regex \<Rightarrow> regex" where "exactly k r = Rep k (Some k) r"
definition between :: "nat \<Rightarrow> nat \<Rightarrow> regex \<Rightarrow> regex" where "between k l r = Rep k (Some l) r"
definition at_least :: "nat \<Rightarrow> regex \<Rightarrow> regex" where "at_least k r = Rep k None r"

fun seqs :: "regex list \<Rightarrow> regex" where
  "seqs [] = Eps"
| "seqs [r] = r"
| "seqs (r # rs) = Seq r (seqs rs)"

definition alpha :: "citem list" where
  "alpha = [Rng CHR ''a'' CHR ''z'', Rng CHR ''A'' CHR ''Z'']"

section \<open>The booking state\<close>

record BookingState =
  step :: nat
  patientName :: string
  phoneNumber :: string
  email :: string
  serviceType :: string
  preferredDate :: string
  preferredTime :: string
  urgency :: string
  additionalNotes :: string
  isComplete :: bool

record ChatMessage =
  role :: string
  content :: string

text \<open>
  Element 1 of a match result is \<^verbatim>\<open>undefined\<close> when the group took no part in the
  match. \<^verbatim>\<open>nameMatch[1].trim()\<close> would then throw, and \<^verbatim>\<open>state.phoneNumber = phoneMatch[1]\<close>
  would store \<^verbatim>\<open>undefined\<close> in a string field; both are the error \<open>Undefined_group\<close> of
  the model. \<open>TypeError\<close> is the exception thrown by a property access on \<^verbatim>\<open>null\<close> or
  \<^verbatim>\<open>undefined\<close> and by a call of something that is not a function.
\<close>

datatype error = Undefined_group | TypeError

definition group1 :: "string \<times> string option \<Rightarrow> error + string" where
  "group1 m = (case snd m of None \<Rightarrow> Inl Undefined_group | Some g \<Rightarrow> Inr g)"

subsection \<open>The patterns\<close>

definition digit :: regex where "digit = Cls [Digit]"
definition space :: regex where "space = Cls [Space]"
definition sep :: regex where "sep = Cls [Chr CHR ''-'', Chr CHR ''.'', Space]"

text \<open>\<^verbatim>\<open>/(?:my name is|i'm|i am|name.*is)\s+([a-zA-Z\s]+)/i\<close>\<close>

definition name_intro :: regex where
  "name_intro =
     Seq (Alt (lit ''my name is'')
           (Alt (lit [CHR ''i'', CHR 0x27, CHR ''m''])
             (Alt (lit ''i am'')
               (seqs [lit ''name'', rstar Dot, lit ''is'']))))
         (Seq (rplus space) (Group (rplus (Cls (alpha @ [Space])))))"

text \<open>\<^verbatim>\<open>/^([a-zA-Z]+\s+[a-zA-Z]+)$/i\<close> and \<^verbatim>\<open>/([a-zA-Z]+\s+[a-zA-Z]+)/i\<close>\<close>

definition two_words :: regex where
  "two_words = Group (seqs [rplus (Cls alpha), rplus space, rplus (Cls alpha)])"

definition namePatterns :: "regex list" where
  "namePatterns = [name_intro, seqs [Bol, two_words, Eol], two_words]"

text \<open>\<^verbatim>\<open>/^[a-zA-Z\s]+$/\<close>\<close>

definition name_chars :: regex where
  "name_chars = seqs [Bol, rplus (Cls (alpha @ [Space])), Eol]"

text \<open>
  \<^verbatim>\<open>/(\d{4}\d{6})/\<close>, \<^verbatim>\<open>/(\d{3}[-.\s]?\d{3}[-.\s]?\d{4})/\<close>,
  \<^verbatim>\<open>/(\+\d{1,3}[-.\s]?\d{8,12})/\<close>, \<^verbatim>\<open>/(\d{10,12})/\<close>
\<close>

definition phonePatterns :: "regex list" where
  "phonePatterns =
     [Group (Seq (exactly 4 digit) (exactly 6 digit)),
      Group (seqs [exactly 3 digit, ropt sep, exactly 3 digit, ropt sep, exactly 4 digit]),
      Group (seqs [lit ''+'', between 1 3 digit, ropt sep, between 8 12 digit]),
      Group (between 10 12 digit)]"

text \<open>\<^verbatim>\<open>/[a-zA-Z0-9._%+-]+@[a-zA-Z0-9.-]+\.[a-zA-Z]{2,}/\<close>\<close>

definition emailPattern :: regex where
  "emailPattern =
     seqs [rplus (Cls (alpha @ [Rng CHR ''0'' CHR ''9'', Chr CHR ''.'', Chr CHR ''_'',
                                Chr CHR ''%'', Chr CHR ''+'', Chr CHR ''-''])),
           lit ''@'',
           rplus (Cls (alpha @ [Rng CHR ''0'' CHR ''9'', Chr CHR ''.'', Chr CHR ''-''])),
           lit ''.'',
           at_least 2 (Cls alpha)]"

text \<open>
  \<^verbatim>\<open>/(\d{1,2}(?::\d{2})?\s*(?:am|pm))/i\<close>, \<^verbatim>\<open>/(\d{1,2}\s*(?:am|pm))/i\<close>,
  \<^verbatim>\<open>/(\d{1,2}:\d{2})/i\<close>
\<close>

definition timePatterns :: "regex list" where
  "timePatterns =
     [Group (seqs [between 1 2 digit, ropt (Seq (lit '':'') (exactly 2 digit)), rstar space,
                   Alt (lit ''am'') (lit ''pm'')]),
      Group (seqs [between 1 2 digit, rstar space, Alt (lit ''am'') (lit ''pm'')]),
      Group (seqs [between 1 2 digit, lit '':'', exactly 2 digit])]"

text \<open>The entries of \<^verbatim>\<open>serviceKeywords\<close>, in the order of the object literal.\<close>

definition serviceKeywords :: "(string \<times> string list) list" where
  "serviceKeywords =
     [(''cleaning'', [''cleaning'', ''clean'']),
      (''checkup'', [''checkup'', ''check-up'', ''check up'', ''examination'']),
      (''whitening'', [''whitening'', ''whiten'', ''bleaching'']),
      (''filling'', [''filling'', ''cavity'', ''drill'']),
      (''emergency'', [''emergency'', ''urgent'', ''pain'', ''broken tooth''])]"

definition dateKeywords :: "string list" where
  "dateKeywords =
     [''monday'', ''tuesday'', ''wednesday'', ''thursday'', ''friday'', ''tomorrow'', ''next week'']"

subsection \<open>extractBookingState\<close>

text \<open>
  The loop over \<^verbatim>\<open>namePatterns\<close>: the first pattern whose group, trimmed, has at least
  two characters and consists of letters and white space gives the name; \<open>None\<close> when
  the loop ends without an assignment.
\<close>

fun first_name :: "regex list \<Rightarrow> string \<Rightarrow> error + string option" where
  "first_name [] str = Inr None"
| "first_name (pattern # patterns) str =
     (case js_match True pattern str of
        None \<Rightarrow> first_name patterns str
      | Some nameMatch \<Rightarrow>
          (case group1 nameMatch of
             Inl e \<Rightarrow> Inl e
           | Inr g \<Rightarrow>
               (let extractedName = trim g in
                if 2 \<le> length extractedName \<and> js_test False name_chars extractedName
                then Inr (Some extractedName)
                else first_name patterns str)))"

text \<open>
  The loops over \<^verbatim>\<open>phonePatterns\<close> and \<^verbatim>\<open>timePatterns\<close>: the group of the first
  pattern that matches.
\<close>

fun first_group :: "bool \<Rightarrow> regex list \<Rightarrow> string \<Rightarrow> error + string option" where
  "first_group ci [] str = Inr None"
| "first_group ci (pattern # patterns) str =
     (case js_match ci pattern str of
        None \<Rightarrow> first_group ci patterns str
      | Some m \<Rightarrow> (case group1 m of Inl e \<Rightarrow> Inl e | Inr g \<Rightarrow> Inr (Some g)))"

definition initial_state :: BookingState where
  "initial_state =
     \<lparr>step = 1, patientName = [], phoneNumber = [], email = [], serviceType = [],
      preferredDate = [], preferredTime = [], urgency = ''routine'',
      additionalNotes = [], isComplete = False\<rparr>"

definition extract_name :: "BookingState \<Rightarrow> string \<Rightarrow> error + BookingState" where
  "extract_name state str =
     (if patientName state = [] then
        (case first_name namePatterns str of
           Inl e \<Rightarrow> Inl e
         | Inr None \<Rightarrow> Inr state
         | Inr (Some n) \<Rightarrow> Inr (state\<lparr>patientName := n\<rparr>))
      else Inr state)"

definition extract_phone :: "BookingState \<Rightarrow> string \<Rightarrow> error + BookingState" where
  "extract_phone state str =
     (if phoneNumber state = [] then
        (case first_group False phonePatterns str of
           Inl e \<Rightarrow> Inl e
         | Inr None \<Rightarrow> Inr state
         | Inr (Some p) \<Rightarrow> Inr (state\<lparr>phoneNumber := p\<rparr>))
      else Inr state)"

definition extract_email :: "BookingState \<Rightarrow> string \<Rightarrow> BookingState" where
  "extract_email state str =
     (if email state = [] then
        (case js_match False emailPattern str of
           None \<Rightarrow> state
         | Some emailMatch \<Rightarrow> state\<lparr>email := fst emailMatch\<rparr>)
      else state)"

definition extract_service :: "BookingState \<Rightarrow> string \<Rightarrow> BookingState" where
  "extract_service state lowerContent =
     (if serviceType state = [] then
        (case find (\<lambda>entry. includes_some lowerContent (snd entry)) serviceKeywords of
           None \<Rightarrow> state
         | Some entry \<Rightarrow>
             (if fst entry = ''emergency''
              then state\<lparr>serviceType := fst entry, urgency := ''emergency''\<rparr>
              else state\<lparr>serviceType := fst entry\<rparr>))
      else state)"

definition extract_date :: "BookingState \<Rightarrow> string \<Rightarrow> BookingState" where
  "extract_date state lowerContent =
     (if preferredDate state = [] then
        (case find (str_includes lowerContent) dateKeywords of
           None \<Rightarrow> state
         | Some keyword \<Rightarrow> state\<lparr>preferredDate := keyword\<rparr>)
      else state)"

definition extract_time :: "BookingState \<Rightarrow> string \<Rightarrow> error + BookingState" where
  "extract_time state str =
     (if preferredTime state = [] then
        (case first_group True timePatterns str of
           Inl e \<Rightarrow> Inl e
         | Inr None \<Rightarrow> Inr state
         | Inr (Some t) \<Rightarrow> Inr (state\<lparr>preferredTime := t\<rparr>))
      else Inr state)"

text \<open>The body of the loop over the user messages.\<close>

definition extract_message :: "BookingState \<Rightarrow> ChatMessage \<Rightarrow> error + BookingState" where
  "extract_message state message =
     (let str = content message; lowerContent = toLowerCase str in
      case extract_name state str of
        Inl e \<Rightarrow> Inl e
      | Inr s1 \<Rightarrow>
          (case extract_phone s1 str of
             Inl e \<Rightarrow> Inl e
           | Inr s2 \<Rightarrow>
               extract_time
                 (extract_date (extract_service (extract_email s2 str) lowerContent) lowerContent)
                 str))"

fun extract_loop :: "BookingState \<Rightarrow> ChatMessage list \<Rightarrow> error + BookingState" where
  "extract_loop state [] = Inr state"
| "extract_loop state (message # messages) =
     (case extract_message state message of
        Inl e \<Rightarrow> Inl e
      | Inr state' \<Rightarrow> extract_loop state' messages)"

definition determineCurrentStep :: "BookingState \<Rightarrow> nat" where
  "determineCurrentStep state =
     (if patientName state = [] then 1
      else if phoneNumber state = [] then 2
      else if email state = [] then 3
      else if serviceType state = [] then 4
      else if preferredDate state = [] then 5
      else if preferredTime state = [] then 6
      else 7)"

definition userMessages :: "ChatMessage list \<Rightarrow> ChatMessage list" where
  "userMessages messages = filter (\<lambda>msg. role msg = ''user'') messages"

definition extractBookingState :: "ChatMessage list \<Rightarrow> error + BookingState" where
  "extractBookingState messages =
     (case extract_loop initial_state (userMessages messages) of
        Inl e \<Rightarrow> Inl e
      | Inr state \<Rightarrow>
          (let state1 = state\<lparr>step := determineCurrentStep state\<rparr>
           in Inr (state1\<lparr>isComplete := (7 < step state1)\<rparr>)))"

subsection \<open>updateBookingState\<close>

text \<open>\<^verbatim>\<open>a || b\<close> on strings: \<open>a\<close> unless it is empty.\<close>

definition or_else :: "string \<Rightarrow> string \<Rightarrow> string" where
  "or_else a b = (if a \<noteq> [] then a else b)"

definition affirmative :: "string \<Rightarrow> bool" where
  "affirmative str =
     (str_includes str ''yes'' \<or> str_includes str ''confirm'' \<or> str_includes str ''book it''
      \<or> str_includes str ''correct'')"

definition updateBookingState ::
  "BookingState \<Rightarrow> string \<Rightarrow> ChatMessage list \<Rightarrow> error + BookingState" where
  "updateBookingState currentState latestMessage allMessages =
     (let str = toLowerCase latestMessage in
      case extractBookingState allMessages of
        Inl e \<Rightarrow> Inl e
      | Inr freshState \<Rightarrow>
          (let newState = currentState
                 \<lparr>patientName := or_else (patientName freshState) (patientName currentState),
                  phoneNumber := or_else (phoneNumber freshState) (phoneNumber currentState),
                  email := or_else (email freshState) (email currentState),
                  serviceType := or_else (serviceType freshState) (serviceType currentState),
                  preferredDate := or_else (preferredDate freshState) (preferredDate currentState),
                  preferredTime := or_else (preferredTime freshState) (preferredTime currentState)\<rparr>;
               newState1 = newState\<lparr>step := determineCurrentStep newState\<rparr>
           in Inr (if affirmative str \<and> 7 \<le> step newState1
                   then newState1\<lparr>isComplete := True\<rparr> else newState1)))"

text \<open>
  The two calls of the request handler: the state extracted from the conversation, then
  updated with the text of the last message (\<^verbatim>\<open>messages[messages.length - 1]?.content || ''\<close>).
\<close>

definition lastContent :: "ChatMessage list \<Rightarrow> string" where
  "lastContent messages = (if messages = [] then [] else content (last messages))"

definition updatedState :: "ChatMessage list \<Rightarrow> error + BookingState" where
  "updatedState messages =
     (case extractBookingState messages of
        Inl e \<Rightarrow> Inl e
      | Inr bookingState \<Rightarrow> updateBookingState bookingState (lastContent messages) messages)"

subsection \<open>The request body at run time\<close>

text \<open>
  \<^verbatim>\<open>ChatMessage\<close> declares \<^verbatim>\<open>role\<close> and \<^verbatim>\<open>content\<close> as strings, but the request handler
  passes the parsed JSON body to \<^verbatim>\<open>extractBookingState\<close> unchecked
  (\<^verbatim>\<open>const { messages } = await req.json()\<close>), so at run time a property can hold any
  JSON value or be missing. The values are told apart as far as the function can: it
  compares \<^verbatim>\<open>role\<close> with \<^verbatim>\<open>'user'\<close> and calls \<^verbatim>\<open>toLowerCase\<close> on \<^verbatim>\<open>content\<close>. The value
  of a number and the entries of an array or object play no role.
\<close>

datatype js_value =
    JUndefined
  | JNull
  | JBoolean bool
  | JNumber int
  | JString string
  | JArray
  | JObject

text \<open>
  An element of the message array: \<^verbatim>\<open>null\<close>, or a value with its \<^verbatim>\<open>role\<close> and
  \<^verbatim>\<open>content\<close> properties (both \<open>JUndefined\<close> for a number, a string, a boolean or an
  array, which have no such properties).
\<close>

datatype raw_message = RawNull | RawMessage js_value js_value

definition raw_of :: "ChatMessage \<Rightarrow> raw_message" where
  "raw_of message = RawMessage (JString (role message)) (JString (content message))"

text \<open>
  \<^verbatim>\<open>messages.filter(msg => msg.role === 'user')\<close>: reading \<^verbatim>\<open>role\<close> of \<^verbatim>\<open>null\<close> throws;
  the comparison holds for the string \<^verbatim>\<open>user\<close> only.
\<close>

fun filter_user :: "raw_message list \<Rightarrow> error + raw_message list" where
  "filter_user [] = Inr []"
| "filter_user (RawNull # messages) = Inl TypeError"
| "filter_user (RawMessage r c # messages) =
     (case filter_user messages of
        Inl e \<Rightarrow> Inl e
      | Inr users \<Rightarrow> Inr (if r = JString ''user'' then RawMessage r c # users else users))"

text \<open>
  The loop over the user messages. Its body starts with
  \<^verbatim>\<open>const content = message.content; const lowerContent = content.toLowerCase();\<close>
  which throws unless the content is a string; with a string the body is
  \<open>extract_message\<close>.
\<close>

fun extract_loop_raw :: "BookingState \<Rightarrow> raw_message list \<Rightarrow> error + BookingState" where
  "extract_loop_raw state [] = Inr state"
| "extract_loop_raw state (RawNull # messages) = Inl TypeError"
| "extract_loop_raw state (RawMessage r c # messages) =
     (case c of
        JString s \<Rightarrow>
          (case extract_message state \<lparr>role = ''user'', content = s\<rparr> of
             Inl e \<Rightarrow> Inl e
           | Inr state' \<Rightarrow> extract_loop_raw state' messages)
      | _ \<Rightarrow> Inl TypeError)"

definition extractBookingState_raw :: "raw_message list \<Rightarrow> error + BookingState" where
  "extractBookingState_raw messages =
     (case filter_user messages of
        Inl e \<Rightarrow> Inl e
      | Inr users \<Rightarrow>
          (case extract_loop_raw initial_state users of
             Inl e \<Rightarrow> Inl e
           | Inr state \<Rightarrow>
               (let state1 = state\<lparr>step := determineCurrentStep state\<rparr>
                in Inr (state1\<lparr>isComplete := (7 < step state1)\<rparr>))))"

section \<open>Notions used in the statements\<close>

text \<open>The six fields in the order in which the conversation asks for them.\<close>

definition six_fields :: "BookingState \<Rightarrow> string list" where
  "six_fields state =
     [patientName state, phoneNumber state, email state, serviceType state,
      preferredDate state, preferredTime state]"

text \<open>
  The specification's step: the 1-based position of the first empty entry of a list of
  fields, and one more than the length of the list when no entry is empty.
\<close>

definition first_empty_ordinal :: "string list \<Rightarrow> nat" where
  "first_empty_ordinal fs = Suc (length (takeWhile (\<lambda>f. f \<noteq> []) fs))"

text \<open>Every field that is filled in \<open>a\<close> has the same value in \<open>b\<close>.\<close>

definition locked :: "BookingState \<Rightarrow> BookingState \<Rightarrow> bool" where
  "locked a b =
     ((patientName a \<noteq> [] \<longrightarrow> patientName b = patientName a) \<and>
      (phoneNumber a \<noteq> [] \<longrightarrow> phoneNumber b = phoneNumber a) \<and>
      (email a \<noteq> [] \<longrightarrow> email b = email a) \<and>
      (serviceType a \<noteq> [] \<longrightarrow> serviceType b = serviceType a) \<and>
      (preferredDate a \<noteq> [] \<longrightarrow> preferredDate b = preferredDate a) \<and>
      (preferredTime a \<noteq> [] \<longrightarrow> preferredTime b = preferredTime a))"

definition urgency_consistent :: "BookingState \<Rightarrow> bool" where
  "urgency_consistent state =
     (if serviceType state = ''emergency'' then urgency state = ''emergency''
      else urgency state = ''routine'')"

definition advance :: "BookingState \<Rightarrow> BookingState \<Rightarrow> bool" where
  "advance a b = (locked a b \<and> (urgency_consistent a \<longrightarrow> urgency_consistent b))"

text \<open>The category that the service keywords give to a lower-cased text, if any.\<close>

definition classify :: "string \<Rightarrow> string" where
  "classify lowerContent =
     (case find (\<lambda>entry. includes_some lowerContent (snd entry)) serviceKeywords of
        None \<Rightarrow> []
      | Some entry \<Rightarrow> fst entry)"

text \<open>The keywords of the four categories that come before \<open>emergency\<close>.\<close>

definition routine_keywords :: "string list" where
  "routine_keywords = concat (map snd (filter (\<lambda>entry. fst entry \<noteq> ''emergency'') serviceKeywords))"

text \<open>
  A message array of the declared type, as far as the function depends on it: no element
  is \<^verbatim>\<open>null\<close>, and the content of every user message is a string.
\<close>

fun is_string :: "js_value \<Rightarrow> bool" where
  "is_string (JString s) = True"
| "is_string v = False"

fun well_typed_message :: "raw_message \<Rightarrow> bool" where
  "well_typed_message RawNull = False"
| "well_typed_message (RawMessage r c) = (if r = JString ''user'' then is_string c else True)"

definition well_typed :: "raw_message list \<Rightarrow> bool" where
  "well_typed messages = list_all well_typed_message messages"

text \<open>A pattern whose every match passes through the group.\<close>

fun captures :: "regex \<Rightarrow> bool" where
  "captures (Group r) = True"
| "captures (Seq a b) = (captures a \<or> captures b)"
| "captures (Alt a b) = (captures a \<and> captures b)"
| "captures r = False"

section \<open>Example conversations\<close>

definition user_says :: "string \<Rightarrow> ChatMessage" where
  "user_says s = \<lparr>role = ''user'', content = s\<rparr>"

definition assistant_says :: "string \<Rightarrow> ChatMessage" where
  "assistant_says s = \<lparr>role = ''assistant'', content = s\<rparr>"

text \<open>Six user messages, one for each field.\<close>

definition booking_conversation :: "ChatMessage list" where
  "booking_conversation =
     map user_says
       [''John Smith'', ''555-123-4567'', ''john@example.com'', ''cleaning'', ''monday'', ''10:00 am'']"

definition booking_fields :: BookingState where
  "booking_fields =
     initial_state\<lparr>patientName := ''John Smith'', phoneNumber := ''555-123-4567'',
       email := ''john@example.com'', serviceType := ''cleaning'', preferredDate := ''monday'',
       preferredTime := ''10:00 am''\<rparr>"

section \<open>The group of a match is defined\<close>

lemma rmatch_cap_mono:
  "st' \<in> set (rmatch ci inp r st) \<Longrightarrow> snd st \<noteq> None \<Longrightarrow> snd st' \<noteq> None"
proof (induction ci inp r st arbitrary: st' rule: rmatch.induct)
  case (1 ci inp st)
  then show ?case by simp
next
  case (2 ci inp items st)
  then show ?case by (cases "fst st") (auto split: if_splits)
next
  case (3 ci inp st)
  then show ?case by (cases "fst st") (auto split: if_splits)
next
  case (4 ci inp st)
  then show ?case by (simp split: if_splits)
next
  case (5 ci inp st)
  then show ?case by (simp split: if_splits)
next
  case (6 ci inp a b st)
  from "6.prems"(1) obtain mid where mid: "mid \<in> set (rmatch ci inp a st)"
    and st': "st' \<in> set (rmatch ci inp b mid)"
    by auto
  from mid "6.prems"(2) have "snd mid \<noteq> None" by (rule "6.IH"(1))
  with mid st' show ?case by (rule "6.IH"(2))
next
  case (7 ci inp a b st)
  from "7.prems"(1) have "st' \<in> set (rmatch ci inp a st) \<or> st' \<in> set (rmatch ci inp b st)"
    by simp
  with "7.IH" "7.prems"(2) show ?case by blast
next
  case (8 ci inp r st)
  then show ?case by auto
next
  case (9 ci inp m n r st)
  show ?case
  proof (cases "n = Some 0")
    case True
    with "9.prems" show ?thesis by (subst (asm) rmatch.simps(9)) simp
  next
    case False
    from "9.prems"(1)
    have "st' \<in> set (if n = Some 0 then [st]
      else concat (map (\<lambda>st'. if m = 0 \<and> \<not> length (fst st') < length (fst st) then []
                              else rmatch ci inp (Rep (m - 1) (map_option (\<lambda>k. k - 1) n) r) st')
                    (rmatch ci inp r st))
           @ (if m = 0 then [st] else []))"
      by (subst (asm) rmatch.simps(9)) assumption
    with False
    consider (iter) mid where "mid \<in> set (rmatch ci inp r st)"
        "\<not> (m = 0 \<and> \<not> length (fst mid) < length (fst st))"
        "st' \<in> set (rmatch ci inp (Rep (m - 1) (map_option (\<lambda>k. k - 1) n) r) mid)"
      | (stop) "st' = st"
      by (auto split: if_splits)
    then show ?thesis
    proof cases
      case iter
      from False iter(1) "9.prems"(2) have "snd mid \<noteq> None" by (rule "9.IH"(1))
      with False iter show ?thesis by (rule "9.IH"(2))
    next
      case stop
      with "9.prems"(2) show ?thesis by simp
    qed
  qed
qed

lemma rmatch_captures:
  "captures r \<Longrightarrow> st' \<in> set (rmatch ci inp r st) \<Longrightarrow> snd st' \<noteq> None"
proof (induction r arbitrary: st st')
  case (Seq a b)
  from Seq.prems(2) obtain mid where mid: "mid \<in> set (rmatch ci inp a st)"
    and st': "st' \<in> set (rmatch ci inp b mid)"
    by auto
  show ?case
  proof (cases "captures a")
    case True
    then have "snd mid \<noteq> None" using mid by (rule Seq.IH(1))
    with st' show ?thesis by (rule rmatch_cap_mono)
  next
    case False
    with Seq.prems(1) have "captures b" by simp
    then show ?thesis using st' by (rule Seq.IH(2))
  qed
next
  case (Alt a b)
  from Alt.prems(2) have "st' \<in> set (rmatch ci inp a st) \<or> st' \<in> set (rmatch ci inp b st)"
    by simp
  moreover have "captures a" "captures b" using Alt.prems(1) by simp_all
  ultimately show ?case using Alt.IH by blast
next
  case (Group r)
  then show ?case by auto
qed simp_all

lemma match_at_captures:
  assumes "captures r" and "match_at ci r inp rest = Some m"
  shows "snd m \<noteq> None"
proof (cases "rmatch ci inp r (rest, None)")
  case Nil
  with assms(2) show ?thesis by (simp add: match_at_def)
next
  case (Cons st' sts)
  then have "st' \<in> set (rmatch ci inp r (rest, None))" by simp
  with assms(1) have "snd st' \<noteq> None" by (rule rmatch_captures)
  with assms(2) Cons show ?thesis by (auto simp: match_at_def)
qed

lemma search_captures:
  "captures r \<Longrightarrow> search ci r inp rest = Some m \<Longrightarrow> snd m \<noteq> None"
proof (induction rest)
  case Nil
  then show ?case by (simp add: match_at_captures)
next
  case (Cons c cs)
  show ?case
  proof (cases "match_at ci r inp (c # cs)")
    case None
    with Cons show ?thesis by simp
  next
    case (Some m')
    with Cons.prems have "m' = m" by simp
    with Some Cons.prems(1) show ?thesis by (simp add: match_at_captures)
  qed
qed

lemma group1_defined:
  assumes "captures r" and "js_match ci r s = Some m"
  shows "\<exists>g. group1 m = Inr g"
proof -
  from assms have "snd m \<noteq> None"
    unfolding js_match_def by (rule search_captures)
  then show ?thesis by (auto simp: group1_def)
qed

lemma first_name_total:
  "list_all captures ps \<Longrightarrow> \<exists>r. first_name ps s = Inr r"
proof (induction ps)
  case Nil
  show ?case by simp
next
  case (Cons p ps)
  then have cap: "captures p" and IH: "\<exists>r. first_name ps s = Inr r" by simp_all
  show ?case
  proof (cases "js_match True p s")
    case None
    with IH show ?thesis by simp
  next
    case (Some m)
    with cap obtain g where "group1 m = Inr g" using group1_defined by blast
    with Some IH show ?thesis by (simp add: Let_def)
  qed
qed

lemma first_group_total:
  "list_all captures ps \<Longrightarrow> \<exists>r. first_group ci ps s = Inr r"
proof (induction ps)
  case Nil
  show ?case by simp
next
  case (Cons p ps)
  then have cap: "captures p" and IH: "\<exists>r. first_group ci ps s = Inr r" by simp_all
  show ?case
  proof (cases "js_match ci p s")
    case None
    with IH show ?thesis by simp
  next
    case (Some m)
    with cap obtain g where "group1 m = Inr g" using group1_defined by blast
    with Some show ?thesis by simp
  qed
qed

lemma captures_namePatterns: "list_all captures namePatterns"
  by (simp add: namePatterns_def name_intro_def two_words_def)

lemma captures_phonePatterns: "list_all captures phonePatterns"
  by (simp add: phonePatterns_def)

lemma captures_timePatterns: "list_all captures timePatterns"
  by (simp add: timePatterns_def)

section \<open>One turn of the loop\<close>

lemma extract_name_cases:
  "extract_name st s = Inr st' \<Longrightarrow>
     st' = st \<or> (patientName st = [] \<and> (\<exists>v. st' = st\<lparr>patientName := v\<rparr>))"
  by (auto simp: extract_name_def split: if_splits sum.splits option.splits)

lemma extract_phone_cases:
  "extract_phone st s = Inr st' \<Longrightarrow>
     st' = st \<or> (phoneNumber st = [] \<and> (\<exists>v. st' = st\<lparr>phoneNumber := v\<rparr>))"
  by (auto simp: extract_phone_def split: if_splits sum.splits option.splits)

lemma extract_time_cases:
  "extract_time st s = Inr st' \<Longrightarrow>
     st' = st \<or> (preferredTime st = [] \<and> (\<exists>v. st' = st\<lparr>preferredTime := v\<rparr>))"
  by (auto simp: extract_time_def split: if_splits sum.splits option.splits)

lemma extract_email_cases:
  "extract_email st s = st \<or> (email st = [] \<and> (\<exists>v. extract_email st s = st\<lparr>email := v\<rparr>))"
  by (auto simp: extract_email_def split: option.splits)

lemma extract_date_cases:
  "extract_date st l = st \<or>
     (preferredDate st = [] \<and> (\<exists>v. extract_date st l = st\<lparr>preferredDate := v\<rparr>))"
  by (auto simp: extract_date_def split: option.splits)

lemma extract_service_eq:
  "extract_service st l =
     (if serviceType st = [] \<and> classify l \<noteq> [] then
        (if classify l = ''emergency''
         then st\<lparr>serviceType := ''emergency'', urgency := ''emergency''\<rparr>
         else st\<lparr>serviceType := classify l\<rparr>)
      else st)"
proof (cases "find (\<lambda>entry. includes_some l (snd entry)) serviceKeywords")
  case None
  then show ?thesis by (simp add: extract_service_def classify_def)
next
  case (Some entry)
  then have "entry \<in> set serviceKeywords" by (auto simp: find_Some_iff in_set_conv_nth)
  then have "fst entry \<noteq> []" by (auto simp: serviceKeywords_def)
  with Some show ?thesis by (simp add: extract_service_def classify_def)
qed

lemma advance_refl: "advance a a"
  by (simp add: advance_def locked_def)

lemma advance_trans [trans]: "advance a b \<Longrightarrow> advance b c \<Longrightarrow> advance a c"
  by (auto simp: advance_def locked_def)

lemma advance_name: "extract_name st s = Inr st' \<Longrightarrow> advance st st'"
  by (drule extract_name_cases) (auto simp: advance_def locked_def urgency_consistent_def)

lemma advance_phone: "extract_phone st s = Inr st' \<Longrightarrow> advance st st'"
  by (drule extract_phone_cases) (auto simp: advance_def locked_def urgency_consistent_def)

lemma advance_time: "extract_time st s = Inr st' \<Longrightarrow> advance st st'"
  by (drule extract_time_cases) (auto simp: advance_def locked_def urgency_consistent_def)

lemma advance_email: "advance st (extract_email st s)"
  using extract_email_cases[of st s]
  by (auto simp: advance_def locked_def urgency_consistent_def)

lemma advance_date: "advance st (extract_date st l)"
  using extract_date_cases[of st l]
  by (auto simp: advance_def locked_def urgency_consistent_def)

lemma advance_service: "advance st (extract_service st l)"
  by (auto simp: extract_service_eq advance_def locked_def urgency_consistent_def)


lemma extract_name_total: "\<exists>st'. extract_name st s = Inr st'"
  using first_name_total[OF captures_namePatterns, of s]
  by (auto simp: extract_name_def split: option.splits)

lemma extract_phone_total: "\<exists>st'. extract_phone st s = Inr st'"
  using first_group_total[OF captures_phonePatterns, of False s]
  by (auto simp: extract_phone_def split: option.splits)

lemma extract_time_total: "\<exists>st'. extract_time st s = Inr st'"
  using first_group_total[OF captures_timePatterns, of True s]
  by (auto simp: extract_time_def split: option.splits)

text \<open>One turn of the loop, step by step.\<close>

lemma extract_message_steps:
  "\<exists>s1 s2. extract_name st (content m) = Inr s1 \<and> extract_phone s1 (content m) = Inr s2 \<and>
     extract_message st m =
       extract_time
         (extract_date (extract_service (extract_email s2 (content m)) (toLowerCase (content m)))
            (toLowerCase (content m)))
         (content m)"
proof -
  obtain s1 where s1: "extract_name st (content m) = Inr s1"
    using extract_name_total by blast
  obtain s2 where s2: "extract_phone s1 (content m) = Inr s2"
    using extract_phone_total by blast
  from s1 s2 show ?thesis by (simp add: extract_message_def Let_def)
qed

lemma extract_message_total: "\<exists>st'. extract_message st m = Inr st'"
  using extract_message_steps[of st m] extract_time_total by metis

lemma extract_message_advance:
  assumes "extract_message st m = Inr st'"
  shows "advance st st'"
proof -
  obtain s1 s2 where s1: "extract_name st (content m) = Inr s1"
    and s2: "extract_phone s1 (content m) = Inr s2"
    and msg: "extract_message st m =
       extract_time
         (extract_date (extract_service (extract_email s2 (content m)) (toLowerCase (content m)))
            (toLowerCase (content m)))
         (content m)"
    using extract_message_steps[of st m] by blast
  let ?s3 = "extract_email s2 (content m)"
  let ?s4 = "extract_service ?s3 (toLowerCase (content m))"
  let ?s5 = "extract_date ?s4 (toLowerCase (content m))"
  have "advance st s1" using s1 by (rule advance_name)
  also have "advance s1 s2" using s2 by (rule advance_phone)
  also have "advance s2 ?s3" by (rule advance_email)
  also have "advance ?s3 ?s4" by (rule advance_service)
  also have "advance ?s4 ?s5" by (rule advance_date)
  also have "advance ?s5 st'" using assms msg by (simp add: advance_time)
  finally show ?thesis .
qed

lemma extract_loop_total: "\<exists>st'. extract_loop st ms = Inr st'"
proof (induction ms arbitrary: st)
  case Nil
  show ?case by simp
next
  case (Cons m ms)
  obtain s1 where "extract_message st m = Inr s1" using extract_message_total by blast
  with Cons[of s1] show ?case by simp
qed

lemma extract_loop_advance: "extract_loop st ms = Inr st' \<Longrightarrow> advance st st'"
proof (induction ms arbitrary: st)
  case Nil
  then show ?case by (simp add: advance_refl)
next
  case (Cons m ms)
  obtain s1 where s1: "extract_message st m = Inr s1" using extract_message_total by blast
  with Cons.prems have "extract_loop s1 ms = Inr st'" by simp
  then have "advance s1 st'" by (rule Cons.IH)
  with extract_message_advance[OF s1] show ?case by (rule advance_trans)
qed

lemma extract_loop_append:
  "extract_loop st (xs @ ys) =
     (case extract_loop st xs of Inl e \<Rightarrow> Inl e | Inr st' \<Rightarrow> extract_loop st' ys)"
  by (induction xs arbitrary: st) (auto split: sum.splits)

lemma userMessages_append: "userMessages (xs @ ys) = userMessages xs @ userMessages ys"
  by (simp add: userMessages_def)

text \<open>What \<open>extractBookingState\<close> returns, in terms of the state the loop ends in.\<close>

lemma extractBookingState_loop:
  "\<exists>st. extract_loop initial_state (userMessages ms) = Inr st \<and>
     extractBookingState ms = Inr (st\<lparr>step := determineCurrentStep st, isComplete := False\<rparr>)"
proof -
  obtain st where st: "extract_loop initial_state (userMessages ms) = Inr st"
    using extract_loop_total by blast
  have "determineCurrentStep st \<le> 7" by (simp add: determineCurrentStep_def)
  with st show ?thesis by (simp add: extractBookingState_def Let_def)
qed

lemma determineCurrentStep_range: "1 \<le> determineCurrentStep st \<and> determineCurrentStep st \<le> 7"
  by (simp add: determineCurrentStep_def)

lemma determineCurrentStep_first_empty:
  "determineCurrentStep st = first_empty_ordinal (six_fields st)"
  by (simp add: determineCurrentStep_def first_empty_ordinal_def six_fields_def)

lemma determineCurrentStep_mono:
  "locked a b \<Longrightarrow> determineCurrentStep a \<le> determineCurrentStep b"
  by (auto simp: locked_def determineCurrentStep_def)

section \<open>Substrings and the service category\<close>

lemma starts_with_map: "starts_with s k \<Longrightarrow> starts_with (map f s) (map f k)"
  by (induction s k rule: starts_with.induct) auto

lemma str_includes_map: "str_includes s k \<Longrightarrow> str_includes (map f s) (map f k)"
proof (induction s)
  case Nil
  then show ?case by simp
next
  case (Cons c cs)
  then show ?case using starts_with_map[of "c # cs" k f] by auto
qed

lemma starts_with_iff: "starts_with s k \<longleftrightarrow> (\<exists>ss. s = k @ ss)"
  by (induction s k rule: starts_with.induct) auto

lemma str_includes_iff: "str_includes s k \<longleftrightarrow> (\<exists>ps ss. s = ps @ k @ ss)"
proof (induction s)
  case Nil
  then show ?case by auto
next
  case (Cons c cs)
  show ?case
  proof
    assume "str_includes (c # cs) k"
    then consider "starts_with (c # cs) k" | "str_includes cs k" by auto
    then show "\<exists>ps ss. c # cs = ps @ k @ ss"
    proof cases
      case 1
      then obtain ss where "c # cs = k @ ss" by (auto simp: starts_with_iff)
      then have "c # cs = [] @ k @ ss" by simp
      then show ?thesis by blast
    next
      case 2
      with Cons obtain ps ss where "cs = ps @ k @ ss" by blast
      then have "c # cs = (c # ps) @ k @ ss" by simp
      then show ?thesis by blast
    qed
  next
    assume "\<exists>ps ss. c # cs = ps @ k @ ss"
    then obtain ps ss where eq: "c # cs = ps @ k @ ss" by blast
    show "str_includes (c # cs) k"
    proof (cases ps)
      case Nil
      with eq have "starts_with (c # cs) k" by (auto simp: starts_with_iff)
      then show ?thesis by simp
    next
      case (Cons p ps')
      with eq have "cs = ps' @ k @ ss" by simp
      with Cons.IH have "str_includes cs k" by blast
      then show ?thesis by simp
    qed
  qed
qed

text \<open>A text that contains \<^verbatim>\<open>broken tooth\<close> still contains it after lower-casing.\<close>

lemma str_includes_toLowerCase:
  assumes "str_includes s ''broken tooth''"
  shows "str_includes (toLowerCase s) ''broken tooth''"
proof -
  have "toLowerCase ''broken tooth'' = ''broken tooth''"
    by (simp add: toLowerCase_def lower_char_def char_code_def)
  with str_includes_map[OF assms, of lower_char] show ?thesis
    by (simp add: toLowerCase_def)
qed

lemma classify_emergency:
  assumes "\<not> includes_some l routine_keywords" and "str_includes l ''broken tooth''"
  shows "classify l = ''emergency''"
  using assms
  by (simp add: classify_def serviceKeywords_def routine_keywords_def includes_some_def)

lemma classify_not_routine:
  assumes "\<not> includes_some l routine_keywords"
  shows "classify l = [] \<or> classify l = ''emergency''"
  using assms
  by (simp add: classify_def serviceKeywords_def routine_keywords_def includes_some_def)

lemma serviceType_name: "extract_name st s = Inr st' \<Longrightarrow> serviceType st' = serviceType st"
  by (drule extract_name_cases) auto

lemma serviceType_phone: "extract_phone st s = Inr st' \<Longrightarrow> serviceType st' = serviceType st"
  by (drule extract_phone_cases) auto

lemma serviceType_time: "extract_time st s = Inr st' \<Longrightarrow> serviceType st' = serviceType st"
  by (drule extract_time_cases) auto

lemma serviceType_email: "serviceType (extract_email st s) = serviceType st"
  using extract_email_cases[of st s] by auto

lemma serviceType_date: "serviceType (extract_date st l) = serviceType st"
  using extract_date_cases[of st l] by auto

lemma serviceType_service:
  "serviceType (extract_service st l) = (if serviceType st = [] then classify l else serviceType st)"
  by (simp add: extract_service_eq)

lemma extract_message_serviceType:
  assumes "extract_message st m = Inr st'"
  shows "serviceType st' =
           (if serviceType st = [] then classify (toLowerCase (content m)) else serviceType st)"
proof -
  obtain s1 s2 where s1: "extract_name st (content m) = Inr s1"
    and s2: "extract_phone s1 (content m) = Inr s2"
    and msg: "extract_message st m =
       extract_time
         (extract_date (extract_service (extract_email s2 (content m)) (toLowerCase (content m)))
            (toLowerCase (content m)))
         (content m)"
    using extract_message_steps[of st m] by blast
  from assms msg have "serviceType st' =
      serviceType (extract_date (extract_service (extract_email s2 (content m))
        (toLowerCase (content m))) (toLowerCase (content m)))"
    by (simp add: serviceType_time)
  also have "\<dots> = (if serviceType s2 = [] then classify (toLowerCase (content m))
                   else serviceType s2)"
    by (simp add: serviceType_date serviceType_service serviceType_email)
  also have "serviceType s2 = serviceType st"
    using s1 s2 by (simp add: serviceType_name serviceType_phone)
  finally show ?thesis .
qed

lemma extract_loop_no_routine:
  assumes "extract_loop st us = Inr st'"
    and "serviceType st = [] \<or> serviceType st = ''emergency''"
    and "\<forall>u \<in> set us. \<not> includes_some (toLowerCase (content u)) routine_keywords"
  shows "serviceType st' = [] \<or> serviceType st' = ''emergency''"
  using assms
proof (induction us arbitrary: st)
  case Nil
  then show ?case by simp
next
  case (Cons u us)
  obtain s1 where s1: "extract_message st u = Inr s1" using extract_message_total by blast
  with Cons.prems(1) have loop: "extract_loop s1 us = Inr st'" by simp
  have "\<not> includes_some (toLowerCase (content u)) routine_keywords"
    using Cons.prems(3) by simp
  then have "classify (toLowerCase (content u)) = [] \<or>
             classify (toLowerCase (content u)) = ''emergency''"
    by (rule classify_not_routine)
  with Cons.prems(2) have "serviceType s1 = [] \<or> serviceType s1 = ''emergency''"
    by (auto simp: extract_message_serviceType[OF s1])
  with loop show ?case using Cons.prems(3) by (intro Cons.IH) auto
qed

section \<open>The example conversations, evaluated\<close>

lemma booking_message1:
  "extract_message initial_state (user_says ''John Smith'') =
     Inr (initial_state\<lparr>patientName := ''John Smith''\<rparr>)"
  by code_simp

lemma booking_message2:
  "extract_message (initial_state\<lparr>patientName := ''John Smith''\<rparr>) (user_says ''555-123-4567'') =
     Inr (initial_state\<lparr>patientName := ''John Smith'', phoneNumber := ''555-123-4567''\<rparr>)"
  by code_simp

lemma booking_message3:
  "extract_message (initial_state\<lparr>patientName := ''John Smith'', phoneNumber := ''555-123-4567''\<rparr>)
     (user_says ''john@example.com'') =
     Inr (initial_state\<lparr>patientName := ''John Smith'', phoneNumber := ''555-123-4567'',
            email := ''john@example.com''\<rparr>)"
  by code_simp

lemma booking_message4:
  "extract_message (initial_state\<lparr>patientName := ''John Smith'', phoneNumber := ''555-123-4567'',
            email := ''john@example.com''\<rparr>) (user_says ''cleaning'') =
     Inr (initial_state\<lparr>patientName := ''John Smith'', phoneNumber := ''555-123-4567'',
            email := ''john@example.com'', serviceType := ''cleaning''\<rparr>)"
  by code_simp

lemma booking_message5:
  "extract_message (initial_state\<lparr>patientName := ''John Smith'', phoneNumber := ''555-123-4567'',
            email := ''john@example.com'', serviceType := ''cleaning''\<rparr>) (user_says ''monday'') =
     Inr (initial_state\<lparr>patientName := ''John Smith'', phoneNumber := ''555-123-4567'',
            email := ''john@example.com'', serviceType := ''cleaning'', preferredDate := ''monday''\<rparr>)"
  by code_simp

lemma booking_message6:
  "extract_message (initial_state\<lparr>patientName := ''John Smith'', phoneNumber := ''555-123-4567'',
            email := ''john@example.com'', serviceType := ''cleaning'', preferredDate := ''monday''\<rparr>)
     (user_says ''10:00 am'') = Inr booking_fields"
  by code_simp

lemma booking_message7:
  "extract_message booking_fields (user_says ''yes, confirm'') = Inr booking_fields"
  by code_simp

lemma booking_loop: "extract_loop initial_state booking_conversation = Inr booking_fields"
  by (simp add: booking_conversation_def booking_message1 booking_message2 booking_message3
      booking_message4 booking_message5 booking_message6)

lemma booking_loop_confirm:
  "extract_loop initial_state (booking_conversation @ [user_says ''yes, confirm'']) = Inr booking_fields"
  by (simp add: extract_loop_append booking_loop booking_message7)


text \<open>The state returned for the six-message conversation.\<close>

lemma booking_extract:
  "extractBookingState booking_conversation = Inr (booking_fields\<lparr>step := 7\<rparr>)"
proof -
  have "userMessages booking_conversation = booking_conversation"
    by (simp add: userMessages_def booking_conversation_def user_says_def)
  moreover have "determineCurrentStep booking_fields = 7"
    by (simp add: determineCurrentStep_def booking_fields_def)
  moreover have "isComplete booking_fields = False"
    by (simp add: booking_fields_def initial_state_def)
  ultimately show ?thesis
    by (simp add: extractBookingState_def booking_loop Let_def)
qed

lemma userMessages_user_says: "userMessages (map user_says ss) = map user_says ss"
  by (induction ss) (simp_all add: userMessages_def user_says_def)

lemma extractBookingState_of_loop:
  assumes "extract_loop initial_state (userMessages ms) = Inr st"
  shows "extractBookingState ms = Inr (st\<lparr>step := determineCurrentStep st, isComplete := False\<rparr>)"
  using assms extractBookingState_loop[of ms] by auto

lemma anna_message1:
  "extract_message initial_state (user_says ''My name is Anna'') =
     Inr (initial_state\<lparr>patientName := ''Anna''\<rparr>)"
  by code_simp

lemma anna_message2:
  "extract_message (initial_state\<lparr>patientName := ''Anna''\<rparr>) (user_says ''Actually call me Bob'') =
     Inr (initial_state\<lparr>patientName := ''Anna''\<rparr>)"
  by code_simp

lemma anna_extract1:
  "extractBookingState [user_says ''My name is Anna''] =
     Inr (initial_state\<lparr>step := 2, patientName := ''Anna''\<rparr>)"
proof -
  have "extract_loop initial_state (userMessages [user_says ''My name is Anna'']) =
      Inr (initial_state\<lparr>patientName := ''Anna''\<rparr>)"
    using userMessages_user_says[of "[''My name is Anna'']"] by (simp add: anna_message1)
  from extractBookingState_of_loop[OF this] show ?thesis
    by (simp add: determineCurrentStep_def initial_state_def)
qed

lemma anna_extract2:
  "extractBookingState [user_says ''My name is Anna'', user_says ''Actually call me Bob''] =
     Inr (initial_state\<lparr>step := 2, patientName := ''Anna''\<rparr>)"
proof -
  have "extract_loop initial_state
      (userMessages [user_says ''My name is Anna'', user_says ''Actually call me Bob'']) =
      Inr (initial_state\<lparr>patientName := ''Anna''\<rparr>)"
    using userMessages_user_says[of "[''My name is Anna'', ''Actually call me Bob'']"]
    by (simp add: anna_message1 anna_message2)
  from extractBookingState_of_loop[OF this] show ?thesis
    by (simp add: determineCurrentStep_def initial_state_def)
qed

lemma booking_extract_confirm:
  "extractBookingState (booking_conversation @ [user_says ''yes, confirm'']) =
     Inr (booking_fields\<lparr>step := 7\<rparr>)"
proof -
  have "userMessages (booking_conversation @ [user_says ''yes, confirm'']) =
      booking_conversation @ [user_says ''yes, confirm'']"
    using userMessages_user_says[of "[''John Smith'', ''555-123-4567'', ''john@example.com'',
      ''cleaning'', ''monday'', ''10:00 am'', ''yes, confirm'']"]
    by (simp add: booking_conversation_def)
  then have "extract_loop initial_state
      (userMessages (booking_conversation @ [user_says ''yes, confirm''])) = Inr booking_fields"
    by (simp add: booking_loop_confirm)
  from extractBookingState_of_loop[OF this] show ?thesis
    by (simp add: determineCurrentStep_def booking_fields_def initial_state_def)
qed

lemma affirmative_yes_confirm: "affirmative (toLowerCase ''yes, confirm'')"
  by code_simp

lemma booking_updated:
  "updatedState (booking_conversation @ [user_says ''yes, confirm'']) =
     Inr (booking_fields\<lparr>step := 7, isComplete := True\<rparr>)"
proof -
  have "lastContent (booking_conversation @ [user_says ''yes, confirm'']) = ''yes, confirm''"
    by (simp add: lastContent_def user_says_def)
  then show ?thesis
    by (simp add: updatedState_def updateBookingState_def booking_extract_confirm
        affirmative_yes_confirm Let_def or_else_def)
       (simp add: booking_fields_def initial_state_def determineCurrentStep_def)
qed

lemma updateBookingState_eq:
  assumes "extractBookingState ms = Inr fresh"
  shows "\<exists>new. new = cur
                 \<lparr>patientName := or_else (patientName fresh) (patientName cur),
                  phoneNumber := or_else (phoneNumber fresh) (phoneNumber cur),
                  email := or_else (email fresh) (email cur),
                  serviceType := or_else (serviceType fresh) (serviceType cur),
                  preferredDate := or_else (preferredDate fresh) (preferredDate cur),
                  preferredTime := or_else (preferredTime fresh) (preferredTime cur)\<rparr> \<and>
     updateBookingState cur latest ms =
       Inr (new\<lparr>step := determineCurrentStep new,
                isComplete := (isComplete cur \<or>
                   (affirmative (toLowerCase latest) \<and> determineCurrentStep new = 7))\<rparr>)"
proof -
  let ?new = "cur
                 \<lparr>patientName := or_else (patientName fresh) (patientName cur),
                  phoneNumber := or_else (phoneNumber fresh) (phoneNumber cur),
                  email := or_else (email fresh) (email cur),
                  serviceType := or_else (serviceType fresh) (serviceType cur),
                  preferredDate := or_else (preferredDate fresh) (preferredDate cur),
                  preferredTime := or_else (preferredTime fresh) (preferredTime cur)\<rparr>"
  have r: "determineCurrentStep ?new \<le> 7" by (simp add: determineCurrentStep_def)
  have c: "isComplete ?new = isComplete cur" by simp
  have "updateBookingState cur latest ms =
       Inr (?new\<lparr>step := determineCurrentStep ?new,
                isComplete := (isComplete cur \<or>
                   (affirmative (toLowerCase latest) \<and> determineCurrentStep ?new = 7))\<rparr>)"
    unfolding updateBookingState_def Let_def using assms r
    by (cases "affirmative (toLowerCase latest)"; cases "determineCurrentStep ?new = 7")
       (simp_all del: One_nat_def)
  then show ?thesis by blast
qed


lemma booking_update:
  "updateBookingState (booking_fields\<lparr>step := 7\<rparr>) ''yes, confirm''
     (booking_conversation @ [user_says ''yes, confirm'']) =
     Inr (booking_fields\<lparr>step := 7, isComplete := True\<rparr>)"
  by (simp add: updateBookingState_def booking_extract_confirm affirmative_yes_confirm
        Let_def or_else_def)
     (simp add: booking_fields_def initial_state_def determineCurrentStep_def)

lemma cleaning_message:
  "extract_message initial_state (user_says ''clean my broken tooth'') =
     Inr (initial_state\<lparr>patientName := ''clean my'', serviceType := ''cleaning''\<rparr>)"
  by code_simp

lemma cleaning_includes:
  "str_includes ''clean my broken tooth'' ''broken tooth''"
  by code_simp

lemma broken_tooth_hypotheses:
  "str_includes (toLowerCase ''I have a Broken Tooth'') ''broken tooth'' \<and>
   \<not> includes_some (toLowerCase ''I have a Broken Tooth'') routine_keywords"
  by code_simp

lemma booking_message_tooth:
  "extract_message booking_fields (user_says ''broken tooth'') = Inr booking_fields"
  by code_simp

lemma booking_extract_tooth:
  "extractBookingState (booking_conversation @ [user_says ''broken tooth'']) =
     Inr (booking_fields\<lparr>step := 7\<rparr>)"
proof -
  have "userMessages (booking_conversation @ [user_says ''broken tooth'']) =
      booking_conversation @ [user_says ''broken tooth'']"
    using userMessages_user_says[of "[''John Smith'', ''555-123-4567'', ''john@example.com'',
      ''cleaning'', ''monday'', ''10:00 am'', ''broken tooth'']"]
    by (simp add: booking_conversation_def)
  then have "extract_loop initial_state
      (userMessages (booking_conversation @ [user_says ''broken tooth''])) = Inr booking_fields"
    by (simp add: extract_loop_append booking_loop booking_message_tooth)
  from extractBookingState_of_loop[OF this] show ?thesis
    by (simp add: determineCurrentStep_def booking_fields_def initial_state_def)
qed

subsection \<open>Message arrays at run time\<close>

lemma extract_message_content:
  "extract_message st \<lparr>role = r, content = content m\<rparr> = extract_message st m"
  by (simp add: extract_message_def)

lemma filter_user_raw_of:
  "filter_user (map raw_of ms) = Inr (map raw_of (userMessages ms))"
  by (induction ms) (simp_all add: raw_of_def userMessages_def)

lemma extract_loop_raw_raw_of:
  "extract_loop_raw st (map raw_of ms) = extract_loop st ms"
proof (induction ms arbitrary: st)
  case Nil
  show ?case by simp
next
  case (Cons m ms)
  show ?case
    by (simp add: raw_of_def extract_message_content Cons.IH[unfolded raw_of_def] cong: sum.case_cong)
qed

lemma extractBookingState_raw_raw_of:
  "extractBookingState_raw (map raw_of ms) = extractBookingState ms"
  by (simp add: extractBookingState_raw_def extractBookingState_def filter_user_raw_of
      extract_loop_raw_raw_of)

text \<open>The filter fails exactly on a \<open>null\<close> element.\<close>

lemma filter_user_eq:
  "filter_user ms =
     (if RawNull \<in> set ms then Inl TypeError
      else Inr (filter (\<lambda>m. case m of RawNull \<Rightarrow> False | RawMessage r c \<Rightarrow> r = JString ''user'') ms))"
proof (induction ms)
  case Nil
  show ?case by simp
next
  case (Cons m ms)
  then show ?case by (cases m) auto
qed

text \<open>The loop fails exactly when it meets a content that is not a string.\<close>

lemma extract_loop_raw_eq:
  "(list_all (\<lambda>m. case m of RawNull \<Rightarrow> False | RawMessage r c \<Rightarrow> is_string c) us \<longrightarrow>
      (\<exists>st'. extract_loop_raw st us = Inr st')) \<and>
   (\<not> list_all (\<lambda>m. case m of RawNull \<Rightarrow> False | RawMessage r c \<Rightarrow> is_string c) us \<longrightarrow>
      extract_loop_raw st us = Inl TypeError)"
proof (induction us arbitrary: st)
  case Nil
  show ?case by simp
next
  case (Cons m us)
  show ?case
  proof (cases m)
    case RawNull
    then show ?thesis by simp
  next
    case (RawMessage r c)
    show ?thesis
    proof (cases c)
      case (JString s)
      obtain s1 where s1: "extract_message st \<lparr>role = ''user'', content = s\<rparr> = Inr s1"
        using extract_message_total by blast
      with RawMessage JString Cons.IH[of s1] show ?thesis by simp
    qed (simp_all add: RawMessage)
  qed
qed


lemma well_typed_iff:
  "well_typed ms \<longleftrightarrow>
     RawNull \<notin> set ms \<and>
     list_all (\<lambda>m. case m of RawNull \<Rightarrow> False | RawMessage r c \<Rightarrow> is_string c)
       (filter (\<lambda>m. case m of RawNull \<Rightarrow> False | RawMessage r c \<Rightarrow> r = JString ''user'') ms)"
proof (induction ms)
  case Nil
  show ?case by (simp add: well_typed_def)
next
  case (Cons m ms)
  then show ?case by (cases m) (auto simp: well_typed_def)
qed

lemma extractBookingState_raw_well_typed:
  assumes "well_typed raws"
  shows "\<exists>state. extractBookingState_raw raws = Inr state"
proof -
  let ?us = "filter (\<lambda>m. case m of RawNull \<Rightarrow> False | RawMessage r c \<Rightarrow> r = JString ''user'') raws"
  from assms have f: "filter_user raws = Inr ?us"
    and a: "list_all (\<lambda>m. case m of RawNull \<Rightarrow> False | RawMessage r c \<Rightarrow> is_string c) ?us"
    by (simp_all add: well_typed_iff filter_user_eq)
  from a obtain st where "extract_loop_raw initial_state ?us = Inr st"
    using extract_loop_raw_eq[of ?us initial_state] by blast
  with f show ?thesis by (simp add: extractBookingState_raw_def Let_def)
qed

lemma extractBookingState_raw_ill_typed:
  assumes "\<not> well_typed raws"
  shows "extractBookingState_raw raws = Inl TypeError"
proof (cases "RawNull \<in> set raws")
  case True
  then show ?thesis by (simp add: extractBookingState_raw_def filter_user_eq)
next
  case False
  let ?us = "filter (\<lambda>m. case m of RawNull \<Rightarrow> False | RawMessage r c \<Rightarrow> r = JString ''user'') raws"
  from False have f: "filter_user raws = Inr ?us" by (simp add: filter_user_eq)
  from False assms
  have "\<not> list_all (\<lambda>m. case m of RawNull \<Rightarrow> False | RawMessage r c \<Rightarrow> is_string c) ?us"
    by (simp add: well_typed_iff)
  then have "extract_loop_raw initial_state ?us = Inl TypeError"
    using extract_loop_raw_eq[of ?us initial_state] by blast
  with f show ?thesis by (simp add: extractBookingState_raw_def)
qed

lemma anna_raw:
  "extractBookingState_raw
     [RawMessage (JString ''assistant'') JNull,
      RawMessage (JString ''user'') (JString ''My name is Anna'')] =
     Inr (initial_state\<lparr>step := 2, patientName := ''Anna''\<rparr>)"
  using anna_message1
  by (simp add: extractBookingState_raw_def user_says_def determineCurrentStep_def Let_def)
     (simp add: initial_state_def)

section \<open>The claims\<close>

text \<open>
  Claim C9: the record returned by \<open>extractBookingState\<close> has its step between 1 and 7
  and is never marked complete.
\<close>

theorem extraction_never_complete:
  "\<exists>state. extractBookingState messages = Inr state \<and>
     1 \<le> step state \<and> step state \<le> 7 \<and> \<not> isComplete state"
proof -
  obtain st where "extractBookingState messages =
      Inr (st\<lparr>step := determineCurrentStep st, isComplete := False\<rparr>)"
    using extractBookingState_loop[of messages] by blast
  then show ?thesis using determineCurrentStep_range[of st] by simp
qed

text \<open>
  Claim C1: the step of the record returned by \<open>extractBookingState\<close> is the 1-based
  position of the first empty field in the order name, phone, email, service, date, time,
  and 7 exactly when all six are filled; without user messages all six fields are empty
  and the step is 1.
\<close>

theorem step_is_first_empty_field:
  "\<exists>state. extractBookingState messages = Inr state \<and>
     step state = first_empty_ordinal (six_fields state) \<and>
     (step state = 7 \<longleftrightarrow> (\<forall>f \<in> set (six_fields state). f \<noteq> [])) \<and>
     (userMessages messages = [] \<longrightarrow>
        six_fields state = [[], [], [], [], [], []] \<and> step state = 1)"
proof -
  obtain st where loop: "extract_loop initial_state (userMessages messages) = Inr st"
    and res: "extractBookingState messages =
      Inr (st\<lparr>step := determineCurrentStep st, isComplete := False\<rparr>)"
    using extractBookingState_loop[of messages] by blast
  let ?r = "st\<lparr>step := determineCurrentStep st, isComplete := False\<rparr>"
  have f: "six_fields ?r = six_fields st" by (simp add: six_fields_def)
  have 1: "step ?r = first_empty_ordinal (six_fields ?r)"
    unfolding f by (simp add: determineCurrentStep_first_empty)
  have 2: "step ?r = 7 \<longleftrightarrow> (\<forall>f \<in> set (six_fields ?r). f \<noteq> [])"
    unfolding f by (simp add: six_fields_def determineCurrentStep_def)
  have 3: "six_fields ?r = [[], [], [], [], [], []] \<and> step ?r = 1"
    if "userMessages messages = []"
  proof -
    from loop that have "st = initial_state" by simp
    then show ?thesis by (simp add: six_fields_def initial_state_def determineCurrentStep_def)
  qed
  from res 1 2 3 show ?thesis by blast
qed

theorem step_is_first_empty_field_witness:
  "userMessages [assistant_says ''Welcome to the clinic''] = [] \<and>
   (\<exists>state. extractBookingState [assistant_says ''Welcome to the clinic''] = Inr state \<and>
      six_fields state = [[], [], [], [], [], []] \<and> step state = 1)"
proof -
  have h: "userMessages [assistant_says ''Welcome to the clinic''] = []"
    by (simp add: userMessages_def assistant_says_def)
  show ?thesis
    using h step_is_first_empty_field[of "[assistant_says ''Welcome to the clinic'']"] by auto
qed

text \<open>
  Claim C10: in the record returned by \<open>extractBookingState\<close> the urgency is
  \<open>emergency\<close> exactly when the service is \<open>emergency\<close>, and \<open>routine\<close> otherwise.
\<close>

theorem urgency_follows_service:
  "\<exists>state. extractBookingState messages = Inr state \<and>
     (urgency state = ''emergency'' \<longleftrightarrow> serviceType state = ''emergency'') \<and>
     (serviceType state \<noteq> ''emergency'' \<longrightarrow> urgency state = ''routine'')"
proof -
  obtain st where loop: "extract_loop initial_state (userMessages messages) = Inr st"
    and res: "extractBookingState messages =
      Inr (st\<lparr>step := determineCurrentStep st, isComplete := False\<rparr>)"
    using extractBookingState_loop[of messages] by blast
  have "urgency_consistent initial_state"
    by (simp add: urgency_consistent_def initial_state_def)
  with extract_loop_advance[OF loop] have "urgency_consistent st"
    by (simp add: advance_def)
  then have "(urgency st = ''emergency'' \<longleftrightarrow> serviceType st = ''emergency'') \<and>
     (serviceType st \<noteq> ''emergency'' \<longrightarrow> urgency st = ''routine'')"
    by (auto simp: urgency_consistent_def split: if_splits)
  with res show ?thesis by simp
qed

theorem urgency_follows_service_witness:
  "extractBookingState booking_conversation = Inr (booking_fields\<lparr>step := 7\<rparr>) \<and>
   serviceType (booking_fields\<lparr>step := 7\<rparr>) \<noteq> ''emergency'' \<and>
   urgency (booking_fields\<lparr>step := 7\<rparr>) = ''routine''"
  using urgency_follows_service[of booking_conversation]
  by (simp add: booking_extract) (simp add: booking_fields_def)

text \<open>
  Claim C6: messages whose role is not \<open>user\<close> never influence the extraction:
  \<open>extractBookingState\<close> returns for a message list what it returns for its user
  messages alone, and inserting or removing an assistant message changes nothing.
\<close>

theorem assistant_messages_ignored:
  "extractBookingState messages = extractBookingState (userMessages messages) \<and>
   (role a \<noteq> ''user'' \<longrightarrow>
      extractBookingState (xs @ a # ys) = extractBookingState (xs @ ys))"
  by (simp add: extractBookingState_def userMessages_def)

theorem assistant_messages_ignored_witness:
  "role (assistant_says ''Which day suits you?'') \<noteq> ''user'' \<and>
   extractBookingState ([user_says ''My name is Anna''] @ assistant_says ''Which day suits you?''
       # [user_says ''monday'']) =
   extractBookingState ([user_says ''My name is Anna''] @ [user_says ''monday''])"
  using assistant_messages_ignored[of "[]" "assistant_says ''Which day suits you?''"
      "[user_says ''My name is Anna'']" "[user_says ''monday'']"]
  by (simp add: assistant_says_def)


text \<open>
  Claim C4: appending messages never decreases the step returned by
  \<open>extractBookingState\<close> and never changes a field that the shorter list had filled;
  for the two messages \<^verbatim>\<open>My name is Anna\<close>, \<^verbatim>\<open>Actually call me Bob\<close> the name is
  \<^verbatim>\<open>Anna\<close>.
\<close>

theorem filled_fields_stay:
  "(\<exists>a b. extractBookingState xs = Inr a \<and> extractBookingState (xs @ ys) = Inr b \<and>
      step a \<le> step b \<and>
      (patientName a \<noteq> [] \<longrightarrow> patientName b = patientName a) \<and>
      (phoneNumber a \<noteq> [] \<longrightarrow> phoneNumber b = phoneNumber a) \<and>
      (email a \<noteq> [] \<longrightarrow> email b = email a) \<and>
      (serviceType a \<noteq> [] \<longrightarrow> serviceType b = serviceType a) \<and>
      (preferredDate a \<noteq> [] \<longrightarrow> preferredDate b = preferredDate a) \<and>
      (preferredTime a \<noteq> [] \<longrightarrow> preferredTime b = preferredTime a)) \<and>
   (\<exists>state. extractBookingState
        [user_says ''My name is Anna'', user_says ''Actually call me Bob''] = Inr state \<and>
      patientName state = ''Anna'')"
proof -
  obtain sa where la: "extract_loop initial_state (userMessages xs) = Inr sa"
    using extract_loop_total by blast
  obtain sb where lb: "extract_loop sa (userMessages ys) = Inr sb"
    using extract_loop_total by blast
  from la lb have lab: "extract_loop initial_state (userMessages (xs @ ys)) = Inr sb"
    by (simp add: userMessages_append extract_loop_append)
  let ?a = "sa\<lparr>step := determineCurrentStep sa, isComplete := False\<rparr>"
  let ?b = "sb\<lparr>step := determineCurrentStep sb, isComplete := False\<rparr>"
  have a: "extractBookingState xs = Inr ?a" using la by (rule extractBookingState_of_loop)
  have b: "extractBookingState (xs @ ys) = Inr ?b" using lab by (rule extractBookingState_of_loop)
  have lk: "locked sa sb" using extract_loop_advance[OF lb] by (simp add: advance_def)
  then have "step ?a \<le> step ?b" by (simp add: determineCurrentStep_mono)
  moreover from lk have "locked ?a ?b" by (simp add: locked_def)
  ultimately have general: "\<exists>a b. extractBookingState xs = Inr a \<and>
      extractBookingState (xs @ ys) = Inr b \<and> step a \<le> step b \<and>
      (patientName a \<noteq> [] \<longrightarrow> patientName b = patientName a) \<and>
      (phoneNumber a \<noteq> [] \<longrightarrow> phoneNumber b = phoneNumber a) \<and>
      (email a \<noteq> [] \<longrightarrow> email b = email a) \<and>
      (serviceType a \<noteq> [] \<longrightarrow> serviceType b = serviceType a) \<and>
      (preferredDate a \<noteq> [] \<longrightarrow> preferredDate b = preferredDate a) \<and>
      (preferredTime a \<noteq> [] \<longrightarrow> preferredTime b = preferredTime a)"
    using a b unfolding locked_def by blast
  have "\<exists>state. extractBookingState
        [user_says ''My name is Anna'', user_says ''Actually call me Bob''] = Inr state \<and>
      patientName state = ''Anna''"
    by (simp add: anna_extract2)
  with general show ?thesis by blast
qed

theorem filled_fields_stay_witness:
  "extractBookingState [user_says ''My name is Anna''] =
     Inr (initial_state\<lparr>step := 2, patientName := ''Anna''\<rparr>) \<and>
   patientName (initial_state\<lparr>step := 2, patientName := ''Anna''\<rparr>) \<noteq> [] \<and>
   (\<exists>b. extractBookingState ([user_says ''My name is Anna''] @ [user_says ''Actually call me Bob''])
      = Inr b \<and> patientName b = ''Anna'' \<and> 2 \<le> step b)"
proof -
  from filled_fields_stay[of "[user_says ''My name is Anna'']" "[user_says ''Actually call me Bob'']"]
  obtain a b where a: "extractBookingState [user_says ''My name is Anna''] = Inr a"
    and b: "extractBookingState ([user_says ''My name is Anna''] @ [user_says ''Actually call me Bob''])
      = Inr b"
    and st: "step a \<le> step b"
    and nm: "patientName a \<noteq> [] \<longrightarrow> patientName b = patientName a"
    by blast
  from a have "a = initial_state\<lparr>step := 2, patientName := ''Anna''\<rparr>"
    by (simp add: anna_extract1)
  with st nm have "patientName b = ''Anna''" "2 \<le> step b" by simp_all
  with b show ?thesis by (simp add: anna_extract1)
qed

text \<open>
  Claim C2: when the lower-cased latest message contains one of \<^verbatim>\<open>yes\<close>,
  \<^verbatim>\<open>confirm\<close>, \<^verbatim>\<open>book it\<close>, \<^verbatim>\<open>correct\<close> and the recomputed step is at least 7,
  the record returned by \<open>updateBookingState\<close> is complete; the six-message conversation
  followed by \<^verbatim>\<open>yes, confirm\<close> ends complete.
\<close>

theorem confirmation_completes:
  "(\<exists>state. updateBookingState currentState latest messages = Inr state \<and>
      (affirmative (toLowerCase latest) \<and> 7 \<le> step state \<longrightarrow> isComplete state)) \<and>
   (\<exists>state. updatedState
        (map user_says [''John Smith'', ''555-123-4567'', ''john@example.com'', ''cleaning'',
           ''monday'', ''10:00 am'', ''yes, confirm'']) = Inr state \<and>
      isComplete state)"
proof -
  obtain fresh where "extractBookingState messages = Inr fresh"
    using extractBookingState_loop[of messages] by blast
  from updateBookingState_eq[OF this, of currentState latest]
  obtain new where u: "updateBookingState currentState latest messages =
       Inr (new\<lparr>step := determineCurrentStep new,
                isComplete := (isComplete currentState \<or>
                   (affirmative (toLowerCase latest) \<and> determineCurrentStep new = 7))\<rparr>)"
    by blast
  have "determineCurrentStep new \<le> 7" using determineCurrentStep_range[of new] by simp
  with u have "\<exists>state. updateBookingState currentState latest messages = Inr state \<and>
      (affirmative (toLowerCase latest) \<and> 7 \<le> step state \<longrightarrow> isComplete state)"
    by auto
  moreover have "\<exists>state. updatedState
        (map user_says [''John Smith'', ''555-123-4567'', ''john@example.com'', ''cleaning'',
           ''monday'', ''10:00 am'', ''yes, confirm'']) = Inr state \<and> isComplete state"
    using booking_updated by (simp add: booking_conversation_def)
  ultimately show ?thesis by blast
qed

theorem confirmation_completes_witness:
  "affirmative (toLowerCase ''yes, confirm'') \<and>
   updateBookingState (booking_fields\<lparr>step := 7\<rparr>) ''yes, confirm''
     (booking_conversation @ [user_says ''yes, confirm'']) =
     Inr (booking_fields\<lparr>step := 7, isComplete := True\<rparr>) \<and>
   7 \<le> step (booking_fields\<lparr>step := 7, isComplete := True\<rparr>) \<and>
   isComplete (booking_fields\<lparr>step := 7, isComplete := True\<rparr>)"
  using confirmation_completes[of "booking_fields\<lparr>step := 7\<rparr>" "''yes, confirm''"
      "booking_conversation @ [user_says ''yes, confirm'']"]
  by (simp add: booking_update affirmative_yes_confirm)

text \<open>
  Claim C3 says that the step reaches 8 once the six fields are filled and the user has
  confirmed, and that a complete record has a step above 7. The confirmed conversation
  ends complete with step 7.
\<close>

theorem complete_at_step_seven:
  "updatedState
     (map user_says [''John Smith'', ''555-123-4567'', ''john@example.com'', ''cleaning'',
        ''monday'', ''10:00 am'', ''yes, confirm'']) =
     Inr \<lparr>step = 7, patientName = ''John Smith'', phoneNumber = ''555-123-4567'',
          email = ''john@example.com'', serviceType = ''cleaning'', preferredDate = ''monday'',
          preferredTime = ''10:00 am'', urgency = ''routine'', additionalNotes = [],
          isComplete = True\<rparr>"
  using booking_updated
  by (simp add: booking_conversation_def) (simp add: booking_fields_def initial_state_def)

text \<open>
  Claim C3, amended: the step of the record returned by \<open>updateBookingState\<close> lies
  between 1 and 7, and is 7 exactly when all six fields are filled; the record is complete
  exactly when the state passed in was complete or the latest message is affirmative and the
  step is 7. In the request handler, which passes the freshly extracted state, the record
  is complete exactly when the last message is affirmative and the step is 7.
\<close>

theorem step_stays_at_seven:
  "(\<exists>state. updateBookingState currentState latest messages = Inr state \<and>
      1 \<le> step state \<and> step state \<le> 7 \<and>
      (step state = 7 \<longleftrightarrow> (\<forall>f \<in> set (six_fields state). f \<noteq> [])) \<and>
      (isComplete state \<longleftrightarrow>
         isComplete currentState \<or> (affirmative (toLowerCase latest) \<and> step state = 7))) \<and>
   (\<exists>state. updatedState messages = Inr state \<and>
      (isComplete state \<longleftrightarrow>
         affirmative (toLowerCase (lastContent messages)) \<and> step state = 7))"
proof -
  obtain fresh where fresh: "extractBookingState messages = Inr fresh"
    using extractBookingState_loop[of messages] by blast
  have general: "\<exists>state. updateBookingState cur latest messages = Inr state \<and>
      1 \<le> step state \<and> step state \<le> 7 \<and>
      (step state = 7 \<longleftrightarrow> (\<forall>f \<in> set (six_fields state). f \<noteq> [])) \<and>
      (isComplete state \<longleftrightarrow>
         isComplete cur \<or> (affirmative (toLowerCase latest) \<and> step state = 7))"
    for cur latest
  proof -
    from updateBookingState_eq[OF fresh, of cur latest]
    obtain new where u: "updateBookingState cur latest messages =
       Inr (new\<lparr>step := determineCurrentStep new,
                isComplete := (isComplete cur \<or>
                   (affirmative (toLowerCase latest) \<and> determineCurrentStep new = 7))\<rparr>)"
      by blast
    let ?r = "new\<lparr>step := determineCurrentStep new,
                isComplete := (isComplete cur \<or>
                   (affirmative (toLowerCase latest) \<and> determineCurrentStep new = 7))\<rparr>"
    have "six_fields ?r = six_fields new" by (simp add: six_fields_def)
    then have "step ?r = 7 \<longleftrightarrow> (\<forall>f \<in> set (six_fields ?r). f \<noteq> [])"
      by (simp add: six_fields_def determineCurrentStep_def)
    moreover have "1 \<le> step ?r \<and> step ?r \<le> 7"
      using determineCurrentStep_range[of new] by simp
    moreover have "isComplete ?r \<longleftrightarrow>
         isComplete cur \<or> (affirmative (toLowerCase latest) \<and> step ?r = 7)"
      by simp
    ultimately show ?thesis using u by blast
  qed
  have "\<not> isComplete fresh"
    using extractBookingState_loop[of messages] fresh by auto
  with general[of fresh "lastContent messages"] fresh
  have "\<exists>state. updatedState messages = Inr state \<and>
      (isComplete state \<longleftrightarrow>
         affirmative (toLowerCase (lastContent messages)) \<and> step state = 7)"
    by (auto simp: updatedState_def)
  with general[of currentState latest] show ?thesis by blast
qed

theorem step_stays_at_seven_witness:
  "updatedState (booking_conversation @ [user_says ''yes, confirm'']) =
     Inr (booking_fields\<lparr>step := 7, isComplete := True\<rparr>) \<and>
   affirmative (toLowerCase (lastContent (booking_conversation @ [user_says ''yes, confirm'']))) \<and>
   step (booking_fields\<lparr>step := 7, isComplete := True\<rparr>) = 7 \<and>
   six_fields (booking_fields\<lparr>step := 7, isComplete := True\<rparr>) =
     [''John Smith'', ''555-123-4567'', ''john@example.com'', ''cleaning'', ''monday'', ''10:00 am''] \<and>
   isComplete (booking_fields\<lparr>step := 7, isComplete := True\<rparr>)"
  using step_stays_at_seven[of "booking_fields" "[]" "booking_conversation @ [user_says ''yes, confirm'']"]
  by (simp add: booking_updated lastContent_def affirmative_yes_confirm)
     (simp add: user_says_def affirmative_yes_confirm six_fields_def booking_fields_def)

text \<open>
  Claim C7 says that a user message containing \<^verbatim>\<open>broken tooth\<close> always gives the
  service and the urgency \<open>emergency\<close>. A message that also contains a keyword of an earlier
  category gets that category, and a service chosen by an earlier message stays.
\<close>

theorem broken_tooth_not_always_emergency:
  "str_includes ''clean my broken tooth'' ''broken tooth'' \<and>
   extractBookingState [user_says ''clean my broken tooth''] =
     Inr \<lparr>step = 2, patientName = ''clean my'', phoneNumber = [], email = [],
          serviceType = ''cleaning'', preferredDate = [], preferredTime = [],
          urgency = ''routine'', additionalNotes = [], isComplete = False\<rparr> \<and>
   extractBookingState
     (map user_says [''John Smith'', ''555-123-4567'', ''john@example.com'', ''cleaning'',
        ''monday'', ''10:00 am'', ''broken tooth'']) =
     Inr \<lparr>step = 7, patientName = ''John Smith'', phoneNumber = ''555-123-4567'',
          email = ''john@example.com'', serviceType = ''cleaning'', preferredDate = ''monday'',
          preferredTime = ''10:00 am'', urgency = ''routine'', additionalNotes = [],
          isComplete = False\<rparr>"
proof -
  have "extract_loop initial_state
      (userMessages [user_says ''clean my broken tooth'']) =
      Inr (initial_state\<lparr>patientName := ''clean my'', serviceType := ''cleaning''\<rparr>)"
    using userMessages_user_says[of "[''clean my broken tooth'']"]
    by (simp add: cleaning_message)
  from extractBookingState_of_loop[OF this] booking_extract_tooth show ?thesis
    by (simp add: cleaning_includes booking_conversation_def determineCurrentStep_def)
       (simp add: booking_fields_def initial_state_def)
qed

text \<open>
  Claim C7, amended: if a user message contains \<^verbatim>\<open>broken tooth\<close> in any letter case,
  and neither it nor any user message before it contains a keyword of the categories
  cleaning, checkup, whitening or filling, then the service and the urgency are
  \<open>emergency\<close>.
\<close>

theorem broken_tooth_emergency:
  assumes "role m = ''user''"
    and "str_includes (toLowerCase (content m)) ''broken tooth''"
    and "\<forall>u \<in> set (userMessages (pre @ [m])).
           \<not> includes_some (toLowerCase (content u)) routine_keywords"
  shows "\<exists>state. extractBookingState (pre @ m # post) = Inr state \<and>
           serviceType state = ''emergency'' \<and> urgency state = ''emergency''"
proof -
  obtain s1 where l1: "extract_loop initial_state (userMessages pre) = Inr s1"
    using extract_loop_total by blast
  obtain s2 where l2: "extract_message s1 m = Inr s2"
    using extract_message_total by blast
  obtain s3 where l3: "extract_loop s2 (userMessages post) = Inr s3"
    using extract_loop_total by blast
  have um: "userMessages (pre @ m # post) = userMessages pre @ m # userMessages post"
    using assms(1) by (simp add: userMessages_def)
  from l1 l2 l3 have loop: "extract_loop initial_state (userMessages (pre @ m # post)) = Inr s3"
    by (simp add: um extract_loop_append)
  have pre_ok: "\<forall>u \<in> set (userMessages pre).
           \<not> includes_some (toLowerCase (content u)) routine_keywords"
    using assms(3) by (simp add: userMessages_def)
  have init: "serviceType initial_state = [] \<or> serviceType initial_state = ''emergency''"
    by (simp add: initial_state_def)
  have "serviceType s1 = [] \<or> serviceType s1 = ''emergency''"
    using l1 init pre_ok by (rule extract_loop_no_routine)
  moreover have "\<not> includes_some (toLowerCase (content m)) routine_keywords"
    using assms(1,3) by (simp add: userMessages_def)
  then have "classify (toLowerCase (content m)) = ''emergency''"
    using assms(2) by (rule classify_emergency)
  ultimately have e2: "serviceType s2 = ''emergency''"
    by (auto simp: extract_message_serviceType[OF l2])
  have "locked s2 s3" using extract_loop_advance[OF l3] by (simp add: advance_def)
  with e2 have e3: "serviceType s3 = ''emergency''" by (simp add: locked_def)
  have "urgency_consistent initial_state"
    by (simp add: urgency_consistent_def initial_state_def)
  with extract_loop_advance[OF loop] have "urgency_consistent s3" by (simp add: advance_def)
  with e3 have "urgency s3 = ''emergency''" by (simp add: urgency_consistent_def)
  with e3 extractBookingState_of_loop[OF loop] show ?thesis by simp
qed


theorem broken_tooth_emergency_witness:
  "role (user_says ''I have a Broken Tooth'') = ''user'' \<and>
   str_includes (toLowerCase (content (user_says ''I have a Broken Tooth''))) ''broken tooth'' \<and>
   userMessages ([assistant_says ''How can we help?''] @ [user_says ''I have a Broken Tooth'']) =
     [user_says ''I have a Broken Tooth''] \<and>
   \<not> includes_some (toLowerCase (content (user_says ''I have a Broken Tooth''))) routine_keywords \<and>
   (\<exists>state. extractBookingState ([assistant_says ''How can we help?''] @
        user_says ''I have a Broken Tooth'' # [user_says ''and a cleaning'']) = Inr state \<and>
      serviceType state = ''emergency'' \<and> urgency state = ''emergency'')"
proof -
  have 1: "role (user_says ''I have a Broken Tooth'') = ''user''"
    by (simp add: user_says_def)
  have 2: "str_includes (toLowerCase (content (user_says ''I have a Broken Tooth''))) ''broken tooth''"
    using broken_tooth_hypotheses by (simp add: user_says_def)
  have u: "userMessages ([assistant_says ''How can we help?''] @ [user_says ''I have a Broken Tooth'']) =
     [user_says ''I have a Broken Tooth'']"
    by (simp add: userMessages_def user_says_def assistant_says_def)
  have n: "\<not> includes_some (toLowerCase (content (user_says ''I have a Broken Tooth''))) routine_keywords"
    using broken_tooth_hypotheses by (simp add: user_says_def)
  have 3: "\<forall>u \<in> set (userMessages ([assistant_says ''How can we help?''] @ [user_says ''I have a Broken Tooth''])).
      \<not> includes_some (toLowerCase (content u)) routine_keywords"
    unfolding u using n by simp
  have 4: "\<exists>state. extractBookingState ([assistant_says ''How can we help?''] @
        user_says ''I have a Broken Tooth'' # [user_says ''and a cleaning'']) = Inr state \<and>
      serviceType state = ''emergency'' \<and> urgency state = ''emergency''"
    using 1 2 3 by (rule broken_tooth_emergency)
  from 1 2 u n 4 show ?thesis by (intro conjI)
qed

text \<open>
  Claim C8 says that \<open>extractBookingState\<close> returns a record for every message list,
  however malformed the contents. A user message whose content is \<^verbatim>\<open>null\<close>, missing or a
  number makes it throw: \<^verbatim>\<open>content.toLowerCase()\<close> is the first step of the loop body.
\<close>

theorem non_string_content_throws:
  "extractBookingState_raw [RawMessage (JString ''user'') JNull] = Inl TypeError \<and>
   extractBookingState_raw [RawMessage (JString ''user'') JUndefined] = Inl TypeError \<and>
   extractBookingState_raw [RawMessage (JString ''user'') (JNumber 42)] = Inl TypeError"
  by (simp add: extractBookingState_raw_def)

text \<open>
  Claim C8, amended: on every message list of the declared type, where each content is a
  string, \<open>extractBookingState\<close> returns a record, whatever the strings are: no match of
  a pattern leaves the group undefined, so neither the \<^verbatim>\<open>trim\<close> call can throw nor a field
  become \<^verbatim>\<open>undefined\<close>. On the parsed request body it returns a record exactly when no
  element is \<^verbatim>\<open>null\<close> and every user message has a string content, and throws a
  \<^verbatim>\<open>TypeError\<close> otherwise.
\<close>

theorem extractBookingState_total_on_strings:
  "(\<exists>state. extractBookingState messages = Inr state \<and>
      extractBookingState_raw (map raw_of messages) = Inr state) \<and>
   (well_typed raws \<longrightarrow> (\<exists>state. extractBookingState_raw raws = Inr state)) \<and>
   (\<not> well_typed raws \<longrightarrow> extractBookingState_raw raws = Inl TypeError)"
proof -
  obtain state where "extractBookingState messages = Inr state"
    using extractBookingState_loop[of messages] by blast
  then have "\<exists>state. extractBookingState messages = Inr state \<and>
      extractBookingState_raw (map raw_of messages) = Inr state"
    by (simp add: extractBookingState_raw_raw_of)
  then show ?thesis
    using extractBookingState_raw_well_typed[of raws] extractBookingState_raw_ill_typed[of raws]
    by blast
qed

theorem extractBookingState_total_on_strings_witness:
  "well_typed [RawMessage (JString ''assistant'') JNull,
      RawMessage (JString ''user'') (JString ''My name is Anna'')] \<and>
   extractBookingState_raw [RawMessage (JString ''assistant'') JNull,
      RawMessage (JString ''user'') (JString ''My name is Anna'')] =
     Inr (initial_state\<lparr>step := 2, patientName := ''Anna''\<rparr>) \<and>
   \<not> well_typed [RawMessage (JString ''user'') (JString ''My name is Anna''),
      RawMessage (JString ''user'') JArray] \<and>
   extractBookingState_raw [RawMessage (JString ''user'') (JString ''My name is Anna''),
      RawMessage (JString ''user'') JArray] = Inl TypeError"
proof -
  have 1: "well_typed [RawMessage (JString ''assistant'') JNull,
      RawMessage (JString ''user'') (JString ''My name is Anna'')]"
    by (simp add: well_typed_def)
  have 2: "\<not> well_typed [RawMessage (JString ''user'') (JString ''My name is Anna''),
      RawMessage (JString ''user'') JArray]"
    by (simp add: well_typed_def)
  from 2 extractBookingState_total_on_strings[of "[]"
      "[RawMessage (JString ''user'') (JString ''My name is Anna''),
        RawMessage (JString ''user'') JArray]"]
  have 3: "extractBookingState_raw [RawMessage (JString ''user'') (JString ''My name is Anna''),
      RawMessage (JString ''user'') JArray] = Inl TypeError"
    by blast
  from 1 extractBookingState_total_on_strings[of "[]"
      "[RawMessage (JString ''assistant'') JNull,
        RawMessage (JString ''user'') (JString ''My name is Anna'')]"]
  have "\<exists>state. extractBookingState_raw [RawMessage (JString ''assistant'') JNull,
      RawMessage (JString ''user'') (JString ''My name is Anna'')] = Inr state"
    by blast
  with 1 2 3 show ?thesis by (simp add: anna_raw)
qed

end
